theory Spec2Isabelle
  imports Main "HOL-Library.Char_ord" "HOL-Library.List_Lexorder" "HOL-Library.Multiset"
begin

section \<open>Values, exceptions and collaborators\<close>

text \<open>
  The manifest is the tree that \<^verbatim>\<open>immutable.fromJS\<close> builds from the parsed YAML document:
  a string scalar, an Immutable \<^verbatim>\<open>List\<close>, an Immutable \<^verbatim>\<open>Map\<close> (its entries in iteration
  order, keys distinct), or \<^verbatim>\<open>undefined\<close> for what is absent. The scalars are strings:
  numbers, booleans and null have no counterpart here. A JavaScript string is a \<open>string\<close>, one
  \<open>char\<close> per code unit, and strings compare lexicographically by code unit.
  \<^verbatim>\<open>Protocol.fromDataSources\<close> reads plain JavaScript values; there \<open>JMap\<close> stands for an
  object and \<open>JList\<close> for an array.
\<close>

datatype jsval =
    JUndefined
  | JStr string
  | JList "jsval list"
  | JMap "(string \<times> jsval) list"

text \<open>
  An exception is either the engine's \<^verbatim>\<open>TypeError\<close> for a method called on a value that
  does not have it (the value is recorded), or an \<^verbatim>\<open>Error\<close> with a message, thrown by the
  code or by a collaborator.
\<close>

datatype exn = TypeError jsval | Failure string

definition ebind :: "exn + 'a \<Rightarrow> ('a \<Rightarrow> exn + 'b) \<Rightarrow> exn + 'b" where
  "ebind m f = (case m of Inl e \<Rightarrow> Inl e | Inr x \<Rightarrow> f x)"

text \<open>A path segment is a field name or a list index; a validation error is a path and a message.\<close>

datatype seg = Key string | Idx nat

record verror =
  path :: "seg list"
  message :: string

text \<open>
  Modelled from the spec: the ABI object that \<^verbatim>\<open>ABI.load\<close> of \<^verbatim>\<open>./abi\<close> returns, a name
  (\<^verbatim>\<open>abi.name\<close>) and an ordered collection of event signatures, which are strings
  (\<^verbatim>\<open>abi.eventSignatures()\<close>).
\<close>

record abi =
  abi_name :: string
  eventSignatures :: "string list"

text \<open>
  The collaborators: \<^verbatim>\<open>resolveFile\<close> and \<^verbatim>\<open>ABI.load\<close> (both may throw), the string
  conversion of an Immutable collection (\<open>inspect\<close>), and the message text the engine
  gives a \<^verbatim>\<open>TypeError\<close> (\<open>typeErrorMessage\<close>).
\<close>

record env =
  resolveFile :: "jsval \<Rightarrow> exn + string"
  ABI_load :: "jsval \<Rightarrow> string \<Rightarrow> exn + abi"
  inspect :: "jsval \<Rightarrow> string"
  typeErrorMessage :: "jsval \<Rightarrow> string"

definition exn_message :: "env \<Rightarrow> exn \<Rightarrow> string" where
  "exn_message env e = (case e of TypeError v \<Rightarrow> typeErrorMessage env v | Failure m \<Rightarrow> m)"

section \<open>Protocol\<close>


text \<open>
  \<^verbatim>\<open>list.includes(v)\<close> is by value equality (Immutable's \<^verbatim>\<open>is\<close>), taken here as the
  equality of \<open>jsval\<close>: that of strings, of \<^verbatim>\<open>undefined\<close> with itself, and of collections of
  equal entries. On a list of strings it is equality with a string of the list.
\<close>

definition includes_str :: "string list \<Rightarrow> jsval \<Rightarrow> bool" where
  "includes_str xs v = (v \<in> set (map JStr xs))"



text \<open>A Protocol object holds the normalized name; \<open>None\<close> is \<^verbatim>\<open>undefined\<close>.\<close>

datatype protocol = Protocol (protocol_name: "string option")





text \<open>The capability switches; a name that matches no case falls through to \<^verbatim>\<open>undefined\<close>.\<close>

definition hasABIs :: "protocol \<Rightarrow> bool option" where
  "hasABIs p =
     (if protocol_name p = Some ''ethereum'' then Some True
      else if protocol_name p = Some ''near'' then Some False
      else if protocol_name p = Some ''cosmos'' then Some False
      else None)"



definition hasTemplates :: "protocol \<Rightarrow> bool option" where
  "hasTemplates p =
     (if protocol_name p = Some ''ethereum'' then Some True
      else if protocol_name p = Some ''near'' then Some False
      else if protocol_name p = Some ''cosmos'' then Some False
      else None)"

text \<open>What a factory method hands out, and the three ways a JavaScript function returns.\<close>

datatype collaborator =
    EthereumTypeGenerator jsval
  | EthereumTemplateCodeGen jsval
  | EthereumABI

datatype 'a returned = Undefined | Null | Value 'a

definition sq :: string where
  "sq = [CHR 0x27]"

definition name_str :: "protocol \<Rightarrow> string" where
  "name_str p = (case protocol_name p of None \<Rightarrow> ''undefined'' | Some n \<Rightarrow> n)"

definition getTypeGenerator :: "protocol \<Rightarrow> jsval \<Rightarrow> exn + collaborator returned" where
  "getTypeGenerator p options =
     (if protocol_name p = Some ''ethereum'' then Inr (Value (EthereumTypeGenerator options))
      else if protocol_name p = Some ''near'' then Inr Null
      else if protocol_name p = Some ''cosmos'' then Inr Null
      else Inr Undefined)"

definition getTemplateCodeGen :: "protocol \<Rightarrow> jsval \<Rightarrow> exn + collaborator returned" where
  "getTemplateCodeGen p template =
     (if hasTemplates p \<noteq> Some True then
        Inl (Failure (''Template data sources with kind '' @ sq @ name_str p @ sq
                      @ '' are not supported yet''))
      else if protocol_name p = Some ''ethereum'' then
        Inr (Value (EthereumTemplateCodeGen template))
      else
        Inl (Failure (''Template data sources with kind '' @ sq @ name_str p @ sq
                      @ '' is unknown'')))"

definition getABI :: "protocol \<Rightarrow> exn + collaborator returned" where
  "getABI p =
     (if protocol_name p = Some ''ethereum'' then Inr (Value EthereumABI)
      else if protocol_name p = Some ''near'' then Inr Null
      else if protocol_name p = Some ''cosmos'' then Inr Null
      else Inr Undefined)"

section \<open>Immutable collections\<close>

text \<open>
  \<^verbatim>\<open>v.get(key)\<close> for a field name: the entry of a Map, \<^verbatim>\<open>undefined\<close> on a List (a name is
  no index), a \<^verbatim>\<open>TypeError\<close> on a value that is no collection.
\<close>

fun get :: "jsval \<Rightarrow> string \<Rightarrow> exn + jsval" where
  "get (JMap kvs) k = Inr (case map_of kvs k of None \<Rightarrow> JUndefined | Some v \<Rightarrow> v)"
| "get (JList xs) k = Inr JUndefined"
| "get v k = Inl (TypeError v)"

text \<open>
  The loop of \<^verbatim>\<open>getIn\<close>: a missing key, or a value on the way that is no collection,
  ends it with \<^verbatim>\<open>undefined\<close>.
\<close>

fun getIn_loop :: "jsval \<Rightarrow> string list \<Rightarrow> jsval" where
  "getIn_loop v [] = v"
| "getIn_loop (JMap kvs) (k # ks) =
     (case map_of kvs k of None \<Rightarrow> JUndefined | Some v \<Rightarrow> getIn_loop v ks)"
| "getIn_loop v (k # ks) = JUndefined"

fun getIn :: "jsval \<Rightarrow> string list \<Rightarrow> exn + jsval" where
  "getIn (JMap kvs) ks = Inr (getIn_loop (JMap kvs) ks)"
| "getIn (JList xs) ks = Inr (getIn_loop (JList xs) ks)"
| "getIn v ks = Inl (TypeError v)"

fun indexed :: "nat \<Rightarrow> 'a list \<Rightarrow> (seg \<times> 'a) list" where
  "indexed n [] = []"
| "indexed n (x # xs) = (Idx n, x) # indexed (Suc n) xs"

text \<open>The entries a collection iterates over: a List by index, a Map by key.\<close>

fun entries :: "jsval \<Rightarrow> (seg \<times> jsval) list" where
  "entries (JList xs) = indexed 0 xs"
| "entries (JMap kvs) = map (\<lambda>(k, v). (Key k, v)) kvs"
| "entries v = []"

definition vals :: "jsval \<Rightarrow> jsval list" where
  "vals c = map snd (entries c)"

fun mapE :: "('a \<Rightarrow> exn + 'b) \<Rightarrow> 'a list \<Rightarrow> exn + 'b list" where
  "mapE f [] = Inr []"
| "mapE f (x # xs) = ebind (f x) (\<lambda>y. ebind (mapE f xs) (\<lambda>ys. Inr (y # ys)))"

fun filterE :: "('a \<Rightarrow> exn + bool) \<Rightarrow> 'a list \<Rightarrow> exn + 'a list" where
  "filterE p [] = Inr []"
| "filterE p (x # xs) =
     ebind (p x) (\<lambda>b. ebind (filterE p xs) (\<lambda>ys. Inr (if b then x # ys else ys)))"

text \<open>\<^verbatim>\<open>c.filter(p)\<close>: a List gives a new List (indexed afresh from 0), a Map keeps its keys.\<close>

fun coll_filter :: "(jsval \<Rightarrow> exn + bool) \<Rightarrow> jsval \<Rightarrow> exn + jsval" where
  "coll_filter p (JList xs) = ebind (filterE p xs) (\<lambda>ys. Inr (JList ys))"
| "coll_filter p (JMap kvs) = ebind (filterE (\<lambda>kv. p (snd kv)) kvs) (\<lambda>ys. Inr (JMap ys))"
| "coll_filter p v = Inl (TypeError v)"

text \<open>\<^verbatim>\<open>c.map(f)\<close>: a collection of the same shape, the same keys.\<close>

fun coll_map :: "(jsval \<Rightarrow> exn + jsval) \<Rightarrow> jsval \<Rightarrow> exn + jsval" where
  "coll_map f (JList xs) = ebind (mapE f xs) (\<lambda>ys. Inr (JList ys))"
| "coll_map f (JMap kvs) =
     ebind (mapE (\<lambda>kv. ebind (f (snd kv)) (\<lambda>w. Inr (fst kv, w))) kvs) (\<lambda>ys. Inr (JMap ys))"
| "coll_map f v = Inl (TypeError v)"

text \<open>\<^verbatim>\<open>c.find(p)\<close>: the first value that satisfies \<open>p\<close>, else \<^verbatim>\<open>undefined\<close>.\<close>

fun findE :: "(jsval \<Rightarrow> exn + bool) \<Rightarrow> jsval list \<Rightarrow> exn + jsval" where
  "findE p [] = Inr JUndefined"
| "findE p (x # xs) = ebind (p x) (\<lambda>b. if b then Inr x else findE p xs)"

fun coll_find :: "(jsval \<Rightarrow> exn + bool) \<Rightarrow> jsval \<Rightarrow> exn + jsval" where
  "coll_find p (JList xs) = findE p xs"
| "coll_find p (JMap kvs) = findE p (map snd kvs)"
| "coll_find p v = Inl (TypeError v)"

text \<open>\<^verbatim>\<open>c.reduce(f, acc)\<close>: \<open>f\<close> receives the accumulator, the value and its key.\<close>

fun reduceE :: "('acc \<Rightarrow> jsval \<Rightarrow> seg \<Rightarrow> exn + 'acc) \<Rightarrow> 'acc \<Rightarrow> (seg \<times> jsval) list \<Rightarrow> exn + 'acc" where
  "reduceE f acc [] = Inr acc"
| "reduceE f acc ((k, v) # kvs) = ebind (f acc v k) (\<lambda>acc'. reduceE f acc' kvs)"

fun coll_reduce :: "('acc \<Rightarrow> jsval \<Rightarrow> seg \<Rightarrow> exn + 'acc) \<Rightarrow> 'acc \<Rightarrow> jsval \<Rightarrow> exn + 'acc" where
  "coll_reduce f acc (JList xs) = reduceE f acc (entries (JList xs))"
| "coll_reduce f acc (JMap kvs) = reduceE f acc (entries (JMap kvs))"
| "coll_reduce f acc v = Inl (TypeError v)"

text \<open>The strict equality \<^verbatim>\<open>===\<close>: two collections are never the same object here.\<close>

fun strict_eq :: "jsval \<Rightarrow> jsval \<Rightarrow> bool" where
  "strict_eq JUndefined JUndefined = True"
| "strict_eq (JStr s) (JStr t) = (s = t)"
| "strict_eq a b = False"

text \<open>The conversion to a string, of a template literal and of \<^verbatim>\<open>RegExp.test\<close>.\<close>

fun toStr :: "env \<Rightarrow> jsval \<Rightarrow> string" where
  "toStr env (JStr s) = s"
| "toStr env JUndefined = ''undefined''"
| "toStr env c = inspect env c"

text \<open>
  The default comparator of \<^verbatim>\<open>sort()\<close>, \<^verbatim>\<open>a > b ? 1 : a < b ? -1 : 0\<close>: two values compare
  as strings once both are strings, and a comparison with \<^verbatim>\<open>undefined\<close> is false.
  The sort is stable; on a list of strings the comparator is a linear order and the result
  is the sorted list whatever the algorithm, which here is insertion.
\<close>

fun prim :: "env \<Rightarrow> jsval \<Rightarrow> string option" where
  "prim env JUndefined = None"
| "prim env v = Some (toStr env v)"

definition js_gt :: "env \<Rightarrow> jsval \<Rightarrow> jsval \<Rightarrow> bool" where
  "js_gt env a b = (case (prim env a, prim env b) of (Some s, Some t) \<Rightarrow> t < s | _ \<Rightarrow> False)"

definition defaultComparator :: "env \<Rightarrow> jsval \<Rightarrow> jsval \<Rightarrow> int" where
  "defaultComparator env a b = (if js_gt env a b then 1 else if js_gt env b a then - 1 else 0)"

fun js_insort :: "env \<Rightarrow> jsval \<Rightarrow> jsval list \<Rightarrow> jsval list" where
  "js_insort env x [] = [x]"
| "js_insort env x (y # ys) =
     (if defaultComparator env x y \<le> 0 then x # y # ys else y # js_insort env x ys)"

definition js_sort :: "env \<Rightarrow> jsval list \<Rightarrow> jsval list" where
  "js_sort env xs = foldr (js_insort env) xs []"

text \<open>\<^verbatim>\<open>strings.join(sep)\<close>.\<close>

fun join :: "string \<Rightarrow> string list \<Rightarrow> string" where
  "join sep [] = []"
| "join sep [x] = x"
| "join sep (x # y # ys) = x @ sep @ join sep (y # ys)"

section \<open>Subgraph: the cross-validation of a manifest\<close>

text \<open>The filter every check starts with: \<^verbatim>\<open>dataSource.get('kind') === 'ethereum/contract'\<close>.\<close>

definition kindFilter :: "jsval \<Rightarrow> exn + bool" where
  "kindFilter dataSource =
     ebind (get dataSource ''kind'') (\<lambda>kind. Inr (strict_eq kind (JStr ''ethereum/contract'')))"

definition contractDataSources :: "jsval \<Rightarrow> exn + jsval" where
  "contractDataSources manifest =
     ebind (get manifest ''dataSources'') (\<lambda>dataSources. coll_filter kindFilter dataSources)"

subsection \<open>validateAbis\<close>

definition abiReferenceMessage :: "env \<Rightarrow> jsval \<Rightarrow> jsval list \<Rightarrow> string" where
  "abiReferenceMessage env abiName abiNames =
     ''ABI name '' @ sq @ toStr env abiName @ sq @ '' not found in mapping > abis.''
     @ ''\<newline>  Available ABIs:\<newline>  ''
     @ join ''\<newline>  '' (map (\<lambda>n. ''- '' @ toStr env n) (js_sort env abiNames))"

definition abiReferenceStep :: "env \<Rightarrow> verror list \<Rightarrow> jsval \<Rightarrow> seg \<Rightarrow> exn + verror list" where
  "abiReferenceStep env errors dataSource dataSourceIndex =
     ebind (getIn dataSource [''source'', ''abi'']) (\<lambda>abiName.
     ebind (getIn dataSource [''mapping'', ''abis'']) (\<lambda>abis.
     ebind (coll_map (\<lambda>abi. get abi ''name'') abis) (\<lambda>abiNames.
       if abiName \<in> set (vals abiNames) then Inr errors
       else Inr (errors @
         [\<lparr>path = [Key ''dataSources'', dataSourceIndex, Key ''source'', Key ''abi''],
           message = abiReferenceMessage env abiName (vals abiNames)\<rparr>]))))"

definition loadAbiEntry :: "env \<Rightarrow> jsval \<Rightarrow> exn + abi" where
  "loadAbiEntry env abi =
     ebind (get abi ''name'') (\<lambda>n.
     ebind (get abi ''file'') (\<lambda>file.
     ebind (resolveFile env file) (\<lambda>resolved.
       ABI_load env n resolved)))"

definition abiFileInner :: "env \<Rightarrow> seg \<Rightarrow> verror list \<Rightarrow> jsval \<Rightarrow> seg \<Rightarrow> exn + verror list" where
  "abiFileInner env dataSourceIndex errors abi abiIndex =
     (case loadAbiEntry env abi of
        Inr loaded \<Rightarrow> Inr errors
      | Inl e \<Rightarrow> Inr (errors @
          [\<lparr>path = [Key ''dataSources'', dataSourceIndex, Key ''mapping'', Key ''abis'',
                    abiIndex, Key ''file''],
            message = exn_message env e\<rparr>]))"

definition abiFileStep :: "env \<Rightarrow> verror list \<Rightarrow> jsval \<Rightarrow> seg \<Rightarrow> exn + verror list" where
  "abiFileStep env errors dataSource dataSourceIndex =
     ebind (getIn dataSource [''mapping'', ''abis'']) (\<lambda>abis.
       coll_reduce (abiFileInner env dataSourceIndex) errors abis)"

definition abiReferenceErrors :: "env \<Rightarrow> jsval \<Rightarrow> exn + verror list" where
  "abiReferenceErrors env manifest =
     ebind (contractDataSources manifest) (coll_reduce (abiReferenceStep env) [])"

definition abiFileErrors :: "env \<Rightarrow> jsval \<Rightarrow> exn + verror list" where
  "abiFileErrors env manifest =
     ebind (contractDataSources manifest) (coll_reduce (abiFileStep env) [])"

definition validateAbis :: "env \<Rightarrow> jsval \<Rightarrow> exn + verror list" where
  "validateAbis env manifest =
     ebind (abiReferenceErrors env manifest) (\<lambda>referenceErrors.
     ebind (abiFileErrors env manifest) (\<lambda>fileErrors.
       Inr (referenceErrors @ fileErrors)))"

subsection \<open>validateContractAddresses\<close>

text \<open>
  The pattern \<^verbatim>\<open>/^(0x)?[0-9a-fA-F]{40}$/\<close>: with the optional group taken, the rest is
  exactly 40 hexadecimal characters; with the group skipped, the whole string is.
\<close>

definition is_hex :: "char \<Rightarrow> bool" where
  "is_hex c = (c \<in> set ''0123456789abcdefABCDEF'')"

definition hex40 :: "string \<Rightarrow> bool" where
  "hex40 s = (length s = 40 \<and> list_all is_hex s)"

definition pattern_test :: "string \<Rightarrow> bool" where
  "pattern_test s = ((take 2 s = ''0x'' \<and> hex40 (drop 2 s)) \<or> hex40 s)"

definition addressMessage :: "env \<Rightarrow> jsval \<Rightarrow> string" where
  "addressMessage env address =
     ''Contract address is invalid: '' @ toStr env address
     @ ''\<newline>  Must be 40 hexadecimal characters, with an optional '' @ sq @ ''0x'' @ sq
     @ '' prefix.''"

definition addressStep :: "env \<Rightarrow> verror list \<Rightarrow> jsval \<Rightarrow> seg \<Rightarrow> exn + verror list" where
  "addressStep env errors dataSource dataSourceIndex =
     ebind (getIn dataSource [''source'', ''address'']) (\<lambda>address.
       if pattern_test (toStr env address) then Inr errors
       else Inr (errors @
         [\<lparr>path = [Key ''dataSources'', dataSourceIndex, Key ''source'', Key ''address''],
           message = addressMessage env address\<rparr>]))"

definition validateContractAddresses :: "env \<Rightarrow> jsval \<Rightarrow> exn + verror list" where
  "validateContractAddresses env manifest =
     ebind (contractDataSources manifest) (coll_reduce (addressStep env) [])"

subsection \<open>validateEvents\<close>

definition eventMessage :: "jsval \<Rightarrow> env \<Rightarrow> abi \<Rightarrow> string" where
  "eventMessage manifestEvent env a =
     ''Event with signature '' @ sq @ toStr env manifestEvent @ sq
     @ '' not present in ABI '' @ sq @ abi_name a @ sq @ ''.''
     @ ''\<newline>  Available events:\<newline>  ''
     @ join ''\<newline>  '' (map (\<lambda>event. ''- '' @ event) (sort (eventSignatures a)))"

definition eventInner :: "env \<Rightarrow> abi \<Rightarrow> seg \<Rightarrow> verror list \<Rightarrow> jsval \<Rightarrow> seg \<Rightarrow> exn + verror list" where
  "eventInner env a dataSourceIndex errors manifestEvent index =
     (if includes_str (eventSignatures a) manifestEvent then Inr errors
      else Inr (errors @
        [\<lparr>path = [Key ''dataSources'', dataSourceIndex, Key ''eventHandlers'', index],
          message = eventMessage manifestEvent env a\<rparr>]))"

text \<open>
  The body of the \<^verbatim>\<open>try\<close> block: first the source ABI name is resolved into an ABI
  object, then the event signatures of the mapping are checked against it.
\<close>

definition resolveAbi :: "env \<Rightarrow> jsval \<Rightarrow> exn + abi" where
  "resolveAbi env dataSource =
     ebind (getIn dataSource [''source'', ''abi'']) (\<lambda>abiName.
     ebind (getIn dataSource [''mapping'', ''abis'']) (\<lambda>abis.
     ebind (coll_find (\<lambda>abi. ebind (get abi ''name'') (\<lambda>n. Inr (strict_eq n abiName))) abis)
       (\<lambda>abiEntry. loadAbiEntry env abiEntry)))"

definition eventsTry :: "env \<Rightarrow> verror list \<Rightarrow> jsval \<Rightarrow> seg \<Rightarrow> exn + verror list" where
  "eventsTry env errors dataSource dataSourceIndex =
     ebind (resolveAbi env dataSource) (\<lambda>a.
     ebind (getIn dataSource [''mapping'', ''eventHandlers'']) (\<lambda>handlers.
     ebind (coll_map (\<lambda>handler. get handler ''event'') handlers) (\<lambda>manifestEvents.
       coll_reduce (eventInner env a dataSourceIndex) errors manifestEvents)))"

definition eventsStep :: "env \<Rightarrow> verror list \<Rightarrow> jsval \<Rightarrow> seg \<Rightarrow> exn + verror list" where
  "eventsStep env errors dataSource dataSourceIndex =
     (case eventsTry env errors dataSource dataSourceIndex of
        Inr errors' \<Rightarrow> Inr errors'
      | Inl e \<Rightarrow> Inr errors)"

definition validateEvents :: "env \<Rightarrow> jsval \<Rightarrow> exn + verror list" where
  "validateEvents env manifest =
     ebind (contractDataSources manifest) (coll_reduce (eventsStep env) [])"

subsection \<open>load: the three validations combined\<close>

definition load_errors :: "env \<Rightarrow> jsval \<Rightarrow> exn + verror list" where
  "load_errors env manifest =
     ebind (validateAbis env manifest) (\<lambda>abiErrors.
     ebind (validateContractAddresses env manifest) (\<lambda>addressErrors.
     ebind (validateEvents env manifest) (\<lambda>eventErrors.
       Inr (abiErrors @ addressErrors @ eventErrors))))"

section \<open>Vocabulary of the statements\<close>

text \<open>A collection is a List or a Map: the values that have \<^verbatim>\<open>get\<close>, \<^verbatim>\<open>map\<close>, \<^verbatim>\<open>reduce\<close>.\<close>

fun is_coll :: "jsval \<Rightarrow> bool" where
  "is_coll (JList xs) = True"
| "is_coll (JMap kvs) = True"
| "is_coll v = False"

text \<open>An eligible data source is one the filter keeps.\<close>

definition eligible :: "jsval \<Rightarrow> bool" where
  "eligible dataSource = (kindFilter dataSource = Inr True)"

text \<open>The errors one data source adds to an empty accumulator; none when the step throws.\<close>

definition errorsOf :: "(verror list \<Rightarrow> jsval \<Rightarrow> seg \<Rightarrow> exn + verror list) \<Rightarrow> seg \<times> jsval \<Rightarrow> verror list" where
  "errorsOf step kv = (case step [] (snd kv) (fst kv) of Inr es \<Rightarrow> es | Inl e \<Rightarrow> [])"

text \<open>The data-source index that the path of an error carries.\<close>

fun ds_idx :: "verror \<Rightarrow> nat" where
  "ds_idx e = (case path e of k # Idx i # rest \<Rightarrow> i | _ \<Rightarrow> 0)"

text \<open>
  Collaborators for the concrete evaluations: files resolve below \<^verbatim>\<open>/subgraph/\<close>, the file
  \<^verbatim>\<open>broken.json\<close> does not parse, every other file holds the two events of a token.
\<close>

definition sample_resolveFile :: "jsval \<Rightarrow> exn + string" where
  "sample_resolveFile file =
     (case file of
        JStr s \<Rightarrow> Inr (''/subgraph/'' @ s)
      | _ \<Rightarrow> Inl (Failure ''The path argument must be of type string''))"

definition sample_load :: "jsval \<Rightarrow> string \<Rightarrow> exn + abi" where
  "sample_load n file =
     (if file = ''/subgraph/broken.json'' then Inl (Failure ''Unexpected token } in JSON'')
      else Inr \<lparr>abi_name = (case n of JStr s \<Rightarrow> s | _ \<Rightarrow> ''undefined''),
                eventSignatures = [''Transfer(address,address,uint256)'',
                                   ''Approval(address,address,uint256)'']\<rparr>)"

definition sample_env :: env where
  "sample_env =
     \<lparr>resolveFile = sample_resolveFile, ABI_load = sample_load,
      inspect = (\<lambda>c. ''[collection]''), typeErrorMessage = (\<lambda>v. ''not a function'')\<rparr>"

text \<open>A data source of the given kind, with the given source and mapping.\<close>

definition mkDataSource :: "string \<Rightarrow> (string \<times> jsval) list \<Rightarrow> (string \<times> jsval) list \<Rightarrow> jsval" where
  "mkDataSource kind source mapping =
     JMap [(''kind'', JStr kind), (''name'', JStr ''Token''),
           (''source'', JMap source), (''mapping'', JMap mapping)]"

definition mkAbi :: "string \<Rightarrow> string \<Rightarrow> jsval" where
  "mkAbi n file = JMap [(''name'', JStr n), (''file'', JStr file)]"

definition manifestOf :: "jsval list \<Rightarrow> jsval" where
  "manifestOf dataSources = JMap [(''specVersion'', JStr ''0.0.4''), (''dataSources'', JList dataSources)]"

text \<open>Two eligible data sources, each with an unknown ABI name and a malformed address.\<close>

definition twoSources :: jsval where
  "twoSources = manifestOf
     [mkDataSource ''ethereum/contract'' [(''address'', JStr ''0x12''), (''abi'', JStr ''Missing'')]
        [(''abis'', JList [mkAbi ''Token'' ''Token.json''])],
      mkDataSource ''ethereum/contract'' [(''address'', JStr ''0x34''), (''abi'', JStr ''Absent'')]
        [(''abis'', JList [mkAbi ''Token'' ''Token.json''])]]"

text \<open>
  The shape the checks rely on: \<^verbatim>\<open>dataSources\<close> is a collection of collections, and the
  \<^verbatim>\<open>mapping.abis\<close> of a data source is a collection of collections.
\<close>

definition wf_sources :: "jsval \<Rightarrow> bool" where
  "wf_sources manifest =
     (case get manifest ''dataSources'' of
        Inl e \<Rightarrow> False
      | Inr dataSources \<Rightarrow> is_coll dataSources \<and> list_all is_coll (vals dataSources))"

definition wf_abis :: "jsval \<Rightarrow> bool" where
  "wf_abis dataSource =
     (is_coll (getIn_loop dataSource [''mapping'', ''abis''])
      \<and> list_all is_coll (vals (getIn_loop dataSource [''mapping'', ''abis''])))"

definition eligibleSources :: "jsval \<Rightarrow> jsval list" where
  "eligibleSources manifest =
     (case get manifest ''dataSources'' of
        Inl e \<Rightarrow> []
      | Inr dataSources \<Rightarrow> filter eligible (vals dataSources))"

section \<open>Basic facts\<close>

lemma ebind_Inl [simp]: "ebind (Inl e) f = Inl e"
  by (simp add: ebind_def)

lemma ebind_Inr [simp]: "ebind (Inr x) f = f x"
  by (simp add: ebind_def)


section \<open>Protocol: the claims\<close>



text \<open>
  C9, as stated, fails: for \<^verbatim>\<open>near\<close>, whose \<^verbatim>\<open>hasABIs\<close> is false, \<^verbatim>\<open>getABI\<close> and
  \<^verbatim>\<open>getTypeGenerator\<close> return \<^verbatim>\<open>null\<close> and raise nothing.
\<close>

theorem factory_null_counterexample:
  "hasABIs (Protocol (Some ''near'')) = Some False
   \<and> getABI (Protocol (Some ''near'')) = Inr Null
   \<and> getTypeGenerator (Protocol (Some ''near'')) JUndefined = Inr Null"
  by (simp add: hasABIs_def getABI_def getTypeGenerator_def)

text \<open>
  C9, amended. Requesting the template code generator of a protocol whose \<^verbatim>\<open>hasTemplates\<close>
  is not true raises an Error; requesting the ABI accessor or the type generator of a
  protocol whose \<^verbatim>\<open>hasABIs\<close> is false returns \<^verbatim>\<open>null\<close>.
\<close>

theorem factory_capability:
  "(hasTemplates p \<noteq> Some True \<longrightarrow> (\<exists>m. getTemplateCodeGen p template = Inl (Failure m)))
   \<and> (hasABIs p = Some False \<longrightarrow> getABI p = Inr Null \<and> getTypeGenerator p options = Inr Null)"
  by (auto simp: hasABIs_def getABI_def getTypeGenerator_def getTemplateCodeGen_def)

theorem factory_capability_witness:
  "hasTemplates (Protocol (Some ''cosmos'')) \<noteq> Some True
   \<and> hasABIs (Protocol (Some ''cosmos'')) = Some False
   \<and> getTemplateCodeGen (Protocol (Some ''cosmos'')) JUndefined
       = Inl (Failure ''Template data sources with kind 'cosmos' are not supported yet'')
   \<and> getABI (Protocol (Some ''cosmos'')) = Inr Null
   \<and> getTypeGenerator (Protocol (Some ''cosmos'')) JUndefined = Inr Null"
  using factory_capability [of "Protocol (Some ''cosmos'')" JUndefined JUndefined]
  by (simp add: hasTemplates_def hasABIs_def getTemplateCodeGen_def name_str_def sq_def)

lemma ebind_assoc: "ebind (ebind m f) g = ebind m (\<lambda>x. ebind (f x) g)"
  by (cases m) simp_all

lemma ebind_eq_Inr: "ebind m f = Inr y \<longleftrightarrow> (\<exists>x. m = Inr x \<and> f x = Inr y)"
  by (cases m) simp_all

lemma get_coll: "is_coll v \<Longrightarrow> \<exists>w. get v k = Inr w"
  by (cases v) simp_all

lemma get_not_coll: "\<not> is_coll v \<Longrightarrow> get v k = Inl (TypeError v)"
  by (cases v) simp_all

lemma getIn_coll: "is_coll v \<Longrightarrow> getIn v ks = Inr (getIn_loop v ks)"
  by (cases v) simp_all

lemma kindFilter_coll: "is_coll v \<Longrightarrow> kindFilter v = Inr (eligible v)"
  by (cases v) (auto simp: kindFilter_def eligible_def)

lemma kindFilter_not_coll: "\<not> is_coll v \<Longrightarrow> kindFilter v = Inl (TypeError v)"
  by (simp add: kindFilter_def get_not_coll)

lemma eligible_coll: "eligible v \<Longrightarrow> is_coll v"
  by (cases v) (auto simp: eligible_def kindFilter_def)

lemma filterE_kindFilter:
  "list_all is_coll xs \<Longrightarrow> filterE kindFilter xs = Inr (filter eligible xs)"
  by (induction xs) (simp_all add: kindFilter_coll)

lemma filterE_kindFilter_throws:
  "\<not> list_all is_coll xs \<Longrightarrow> \<exists>e. filterE kindFilter xs = Inl e"
proof (induction xs)
  case Nil
  then show ?case by simp
next
  case (Cons x xs)
  show ?case
  proof (cases "is_coll x")
    case True
    with Cons obtain e where "filterE kindFilter xs = Inl e" by auto
    with True show ?thesis by (simp add: kindFilter_coll)
  next
    case False
    then show ?thesis by (simp add: kindFilter_not_coll)
  qed
qed

lemma filterE_kindFilter_snd:
  "list_all is_coll (map snd kvs) \<Longrightarrow>
     filterE (\<lambda>kv. kindFilter (snd kv)) kvs = Inr (filter (\<lambda>kv. eligible (snd kv)) kvs)"
  by (induction kvs) (simp_all add: kindFilter_coll)

lemma reduceE_append:
  assumes "\<And>acc v k. f acc v k = ebind (f [] v k) (\<lambda>es. Inr (acc @ es))"
  shows "reduceE f acc kvs =
           ebind (mapE (\<lambda>kv. f [] (snd kv) (fst kv)) kvs) (\<lambda>ess. Inr (acc @ concat ess))"
proof (induction kvs arbitrary: acc)
  case Nil
  then show ?case by simp
next
  case (Cons kv kvs)
  obtain k v where kv: "kv = (k, v)" by (cases kv)
  show ?case
  proof (cases "f [] v k")
    case (Inl e)
    then show ?thesis using assms [of acc v k] by (simp add: kv)
  next
    case (Inr es)
    then have "f acc v k = Inr (acc @ es)" using assms [of acc v k] by simp
    then show ?thesis using Inr Cons.IH [of "acc @ es"]
      by (cases "mapE (\<lambda>kv. f [] (snd kv) (fst kv)) kvs") (simp_all add: kv)
  qed
qed

lemma mapE_total:
  assumes "\<And>x. x \<in> set xs \<Longrightarrow> f x = Inr (g x)"
  shows "mapE f xs = Inr (map g xs)"
  using assms by (induction xs) simp_all

lemma indexed_snd [simp]: "map snd (indexed n xs) = xs"
  by (induction xs arbitrary: n) simp_all

lemma reduceE_Nil_acc:
  assumes "\<And>acc v k. f acc v k = ebind (f [] v k) (\<lambda>es. Inr (acc @ es))"
  shows "reduceE f acc kvs = ebind (reduceE f [] kvs) (\<lambda>es. Inr (acc @ es))"
  by (simp add: reduceE_append [where f = f and acc = acc, OF assms]
      reduceE_append [where f = f and acc = "[]", OF assms] ebind_assoc)

lemma coll_reduce_Nil_acc:
  assumes "\<And>acc v k. f acc v k = ebind (f [] v k) (\<lambda>es. Inr (acc @ es))"
  shows "coll_reduce f acc c = ebind (coll_reduce f [] c) (\<lambda>es. Inr (acc @ es))"
  by (cases c) (simp_all add: reduceE_Nil_acc [where f = f and acc = acc, OF assms])

lemma abiReferenceStep_acc:
  "abiReferenceStep env acc ds i = ebind (abiReferenceStep env [] ds i) (\<lambda>es. Inr (acc @ es))"
  by (simp add: abiReferenceStep_def ebind_def split: sum.splits)

lemma abiFileInner_acc:
  "abiFileInner env i acc a j = ebind (abiFileInner env i [] a j) (\<lambda>es. Inr (acc @ es))"
  by (simp add: abiFileInner_def split: sum.splits)

lemma abiFileStep_acc:
  "abiFileStep env acc ds i = ebind (abiFileStep env [] ds i) (\<lambda>es. Inr (acc @ es))"
  unfolding abiFileStep_def
  by (cases "getIn ds [''mapping'', ''abis'']")
     (simp_all add: coll_reduce_Nil_acc [where f = "abiFileInner env i" and acc = acc, OF abiFileInner_acc])

lemma addressStep_acc:
  "addressStep env acc ds i = ebind (addressStep env [] ds i) (\<lambda>es. Inr (acc @ es))"
  by (simp add: addressStep_def ebind_def split: sum.splits)

lemma eventInner_acc:
  "eventInner env a i acc ev j = ebind (eventInner env a i [] ev j) (\<lambda>es. Inr (acc @ es))"
  by (simp add: eventInner_def)

lemma eventsTry_acc:
  "eventsTry env acc ds i = ebind (eventsTry env [] ds i) (\<lambda>es. Inr (acc @ es))"
proof (cases "resolveAbi env ds")
  case (Inl e)
  then show ?thesis by (simp add: eventsTry_def)
next
  case a: (Inr a)
  show ?thesis
  proof (cases "getIn ds [''mapping'', ''eventHandlers'']")
    case (Inl e)
    with a show ?thesis by (simp add: eventsTry_def)
  next
    case h: (Inr handlers)
    show ?thesis
    proof (cases "coll_map (\<lambda>handler. get handler ''event'') handlers")
      case (Inl e)
      with a h show ?thesis by (simp add: eventsTry_def)
    next
      case (Inr manifestEvents)
      with a h show ?thesis
        by (simp add: eventsTry_def
            coll_reduce_Nil_acc [where f = "eventInner env a i" and acc = acc, OF eventInner_acc])
    qed
  qed
qed

lemma eventsStep_errorsOf:
  "eventsStep env acc ds i = Inr (acc @ errorsOf (eventsStep env) (i, ds))"
  using eventsTry_acc [of env acc ds i]
  by (simp add: eventsStep_def errorsOf_def split: sum.splits)

lemma eventsStep_acc:
  "eventsStep env acc ds i = ebind (eventsStep env [] ds i) (\<lambda>es. Inr (acc @ es))"
  by (simp add: eventsStep_errorsOf [of env acc] eventsStep_errorsOf [of env "[]"])

lemma addressStep_errorsOf:
  "is_coll ds \<Longrightarrow> addressStep env acc ds i = Inr (acc @ errorsOf (addressStep env) (i, ds))"
  by (simp add: addressStep_def errorsOf_def getIn_coll)

lemma contractDataSources_list:
  assumes "get manifest ''dataSources'' = Inr (JList dss)" and "list_all is_coll dss"
  shows "contractDataSources manifest = Inr (JList (filter eligible dss))"
  using assms by (simp add: contractDataSources_def filterE_kindFilter)

lemma validate_steps:
  assumes acc: "\<And>acc v k. step acc v k = ebind (step [] v k) (\<lambda>es. Inr (acc @ es))"
    and "get manifest ''dataSources'' = Inr (JList dss)" and "list_all is_coll dss"
  shows "ebind (contractDataSources manifest) (coll_reduce step []) =
           ebind (mapE (\<lambda>kv. step [] (snd kv) (fst kv)) (indexed 0 (filter eligible dss)))
             (\<lambda>ess. Inr (concat ess))"
  using assms(2,3)
  by (simp add: contractDataSources_list reduceE_append [where f = step and acc = "[]", OF acc])

lemma set_indexed_snd: "kv \<in> set (indexed n xs) \<Longrightarrow> snd kv \<in> set xs"
  by (induction xs arbitrary: n) auto

lemma validate_total_steps:
  assumes acc: "\<And>acc v k. step acc v k = ebind (step [] v k) (\<lambda>es. Inr (acc @ es))"
    and total: "\<And>v k. eligible v \<Longrightarrow> \<exists>es. step [] v k = Inr es"
    and "get manifest ''dataSources'' = Inr (JList dss)" and "list_all is_coll dss"
  shows "ebind (contractDataSources manifest) (coll_reduce step []) =
           Inr (concat (map (errorsOf step) (indexed 0 (filter eligible dss))))"
proof -
  have "mapE (\<lambda>kv. step [] (snd kv) (fst kv)) (indexed 0 (filter eligible dss))
          = Inr (map (errorsOf step) (indexed 0 (filter eligible dss)))"
  proof (rule mapE_total)
    fix kv assume "kv \<in> set (indexed 0 (filter eligible dss))"
    then have "eligible (snd kv)" using set_indexed_snd by fastforce
    then obtain es where "step [] (snd kv) (fst kv) = Inr es" using total by blast
    then show "step [] (snd kv) (fst kv) = Inr (errorsOf step kv)" by (simp add: errorsOf_def)
  qed
  then show ?thesis
    using validate_steps [where step = step, OF acc assms(3,4)] by simp
qed

lemma validateContractAddresses_concat:
  assumes "get manifest ''dataSources'' = Inr (JList dss)" and "list_all is_coll dss"
  shows "validateContractAddresses env manifest =
           Inr (concat (map (errorsOf (addressStep env)) (indexed 0 (filter eligible dss))))"
  unfolding validateContractAddresses_def
proof (rule validate_total_steps [where step = "addressStep env", OF addressStep_acc _ assms])
  fix v k assume "eligible v"
  then show "\<exists>es. addressStep env [] v k = Inr es"
    by (simp add: addressStep_errorsOf eligible_coll)
qed

lemma validateEvents_concat:
  assumes "get manifest ''dataSources'' = Inr (JList dss)" and "list_all is_coll dss"
  shows "validateEvents env manifest =
           Inr (concat (map (errorsOf (eventsStep env)) (indexed 0 (filter eligible dss))))"
  unfolding validateEvents_def
  by (rule validate_total_steps [where step = "eventsStep env", OF eventsStep_acc _ assms])
     (simp add: eventsStep_errorsOf)

section \<open>The address check\<close>

lemma is_hex_x [simp]: "\<not> is_hex CHR ''x''"
  by (simp add: is_hex_def)


lemma pattern_test_hex:
  assumes "list_all is_hex t"
  shows "pattern_test t \<longleftrightarrow> length t = 40" and "pattern_test (''0x'' @ t) \<longleftrightarrow> length t = 40"
proof -
  have "take 2 t \<noteq> ''0x''"
  proof
    assume "take 2 t = ''0x''"
    then have "CHR ''x'' \<in> set (take 2 t)" by simp
    then have "CHR ''x'' \<in> set t" by (rule in_set_takeD)
    with assms show False using is_hex_x by (auto simp: list_all_iff)
  qed
  with assms show "pattern_test t \<longleftrightarrow> length t = 40"
    by (simp add: pattern_test_def hex40_def)
  from assms show "pattern_test (''0x'' @ t) \<longleftrightarrow> length t = 40"
    by (simp add: pattern_test_def hex40_def)
qed

lemma pattern_test_non_hex:
  assumes "\<not> list_all is_hex t"
  shows "\<not> pattern_test (''0x'' @ t)" and "take 2 t \<noteq> ''0x'' \<Longrightarrow> \<not> pattern_test t"
  using assms by (simp_all add: pattern_test_def hex40_def)






section \<open>When the checks return\<close>

lemma vals_JList [simp]: "vals (JList xs) = xs"
  by (simp add: vals_def)

lemma vals_JMap [simp]: "vals (JMap kvs) = map snd kvs"
  by (simp add: vals_def comp_def case_prod_unfold)

lemma mapE_Inr_iff: "(\<exists>ys. mapE f xs = Inr ys) \<longleftrightarrow> (\<forall>x\<in>set xs. \<exists>y. f x = Inr y)"
proof (induction xs)
  case Nil
  then show ?case by simp
next
  case (Cons x xs)
  show ?case
  proof (cases "f x")
    case (Inl e)
    then show ?thesis by auto
  next
    case (Inr y)
    then show ?thesis using Cons.IH by (cases "mapE f xs") auto
  qed
qed

lemma coll_filter_kindFilter:
  assumes "is_coll c" and "list_all is_coll (vals c)"
  shows "\<exists>c'. coll_filter kindFilter c = Inr c' \<and> is_coll c' \<and> vals c' = filter eligible (vals c)"
proof (cases c)
  case (JList xs)
  with assms show ?thesis by (simp add: filterE_kindFilter)
next
  case (JMap kvs)
  with assms show ?thesis by (simp add: filterE_kindFilter_snd filter_map comp_def)
qed (use assms in simp_all)

lemma filterE_kindFilter_snd_throws:
  "\<not> list_all is_coll (map snd kvs) \<Longrightarrow> \<exists>e. filterE (\<lambda>kv. kindFilter (snd kv)) kvs = Inl e"
proof (induction kvs)
  case Nil
  then show ?case by simp
next
  case (Cons kv kvs)
  show ?case
  proof (cases "is_coll (snd kv)")
    case True
    with Cons obtain e where "filterE (\<lambda>kv. kindFilter (snd kv)) kvs = Inl e" by auto
    with True show ?thesis by (simp add: kindFilter_coll)
  next
    case False
    then show ?thesis by (simp add: kindFilter_not_coll)
  qed
qed

lemma coll_filter_kindFilter_throws:
  assumes "\<not> (is_coll c \<and> list_all is_coll (vals c))"
  shows "\<exists>e. coll_filter kindFilter c = Inl e"
proof (cases c)
  case (JList xs)
  with assms obtain e where "filterE kindFilter xs = Inl e"
    using filterE_kindFilter_throws [of xs] by auto
  with JList show ?thesis by simp
next
  case (JMap kvs)
  with assms obtain e where "filterE (\<lambda>kv. kindFilter (snd kv)) kvs = Inl e"
    using filterE_kindFilter_snd_throws [of kvs] by auto
  with JMap show ?thesis by simp
qed simp_all

lemma contractDataSources_wf:
  assumes "wf_sources manifest"
  shows "\<exists>c. contractDataSources manifest = Inr c \<and> is_coll c \<and> vals c = eligibleSources manifest"
proof -
  from assms obtain dss where d: "get manifest ''dataSources'' = Inr dss"
    and "is_coll dss" "list_all is_coll (vals dss)"
    by (auto simp: wf_sources_def split: sum.splits)
  then show ?thesis
    using coll_filter_kindFilter [of dss]
    by (simp add: contractDataSources_def eligibleSources_def)
qed

lemma contractDataSources_not_wf:
  assumes "\<not> wf_sources manifest"
  shows "\<exists>e. contractDataSources manifest = Inl e"
proof (cases "get manifest ''dataSources''")
  case (Inl e)
  then show ?thesis by (simp add: contractDataSources_def)
next
  case (Inr dss)
  with assms have "\<not> (is_coll dss \<and> list_all is_coll (vals dss))"
    by (simp add: wf_sources_def)
  then show ?thesis using Inr coll_filter_kindFilter_throws [of dss]
    by (simp add: contractDataSources_def)
qed

lemma coll_reduce_Inr_iff:
  assumes acc: "\<And>acc v k. step acc v k = ebind (step [] v k) (\<lambda>es. Inr (acc @ es))"
    and "is_coll c"
  shows "(\<exists>es. coll_reduce step [] c = Inr es) \<longleftrightarrow>
         (\<forall>kv\<in>set (entries c). \<exists>es. step [] (snd kv) (fst kv) = Inr es)"
proof -
  have "coll_reduce step [] c = reduceE step [] (entries c)"
    using assms(2) by (cases c) simp_all
  also have "\<dots> = ebind (mapE (\<lambda>kv. step [] (snd kv) (fst kv)) (entries c))
                     (\<lambda>ess. Inr ([] @ concat ess))"
    by (rule reduceE_append [where f = step, OF acc])
  finally have "(\<exists>es. coll_reduce step [] c = Inr es) \<longleftrightarrow>
                (\<exists>ess. mapE (\<lambda>kv. step [] (snd kv) (fst kv)) (entries c) = Inr ess)"
    by (cases "mapE (\<lambda>kv. step [] (snd kv) (fst kv)) (entries c)") simp_all
  then show ?thesis by (simp add: mapE_Inr_iff)
qed

lemma validate_Inr_iff:
  assumes acc: "\<And>acc v k. step acc v k = ebind (step [] v k) (\<lambda>es. Inr (acc @ es))"
    and ok: "\<And>v k. eligible v \<Longrightarrow> (\<exists>es. step [] v k = Inr es) \<longleftrightarrow> good v"
  shows "(\<exists>es. ebind (contractDataSources manifest) (coll_reduce step []) = Inr es) \<longleftrightarrow>
         wf_sources manifest \<and> list_all good (eligibleSources manifest)"
proof (cases "wf_sources manifest")
  case False
  then show ?thesis using contractDataSources_not_wf [of manifest] by auto
next
  case True
  then obtain c where c: "contractDataSources manifest = Inr c" "is_coll c"
    "vals c = eligibleSources manifest"
    using contractDataSources_wf by blast
  have el: "\<forall>v\<in>set (vals c). eligible v"
    using True by (auto simp: c(3) eligibleSources_def split: sum.splits)
  have "(\<forall>kv\<in>set (entries c). \<exists>es. step [] (snd kv) (fst kv) = Inr es)
        \<longleftrightarrow> (\<forall>v\<in>set (vals c). good v)"
    using el ok by (auto simp: vals_def)
  then show ?thesis
    using True c coll_reduce_Inr_iff [where step = step and c = c, OF acc]
    by (simp add: list_all_iff)
qed

lemma coll_map_get_Inr_iff:
  "(\<exists>r. coll_map (\<lambda>x. get x k) c = Inr r) \<longleftrightarrow> is_coll c \<and> list_all is_coll (vals c)"
proof (cases c)
  case (JList xs)
  have "(\<exists>ys. mapE (\<lambda>x. get x k) xs = Inr ys) \<longleftrightarrow> list_all is_coll xs"
    unfolding mapE_Inr_iff list_all_iff
    by (metis get_coll get_not_coll sum.distinct(1))
  then show ?thesis using JList by (cases "mapE (\<lambda>x. get x k) xs") simp_all
next
  case (JMap kvs)
  have "(\<exists>ys. mapE (\<lambda>kv. ebind (get (snd kv) k) (\<lambda>w. Inr (fst kv, w))) kvs = Inr ys)
          \<longleftrightarrow> list_all is_coll (map snd kvs)"
    unfolding mapE_Inr_iff list_all_iff
  proof -
    have h: "(\<exists>y. ebind (get (snd kv) k) (\<lambda>w. Inr (fst kv, w)) = Inr y) \<longleftrightarrow> is_coll (snd kv)" for kv
      by (metis ebind_eq_Inr get_coll get_not_coll sum.distinct(1))
    show "(\<forall>x\<in>set kvs. \<exists>y. ebind (get (snd x) k) (\<lambda>w. Inr (fst x, w)) = Inr y)
               = (\<forall>x\<in>set (map snd kvs). is_coll x)" by (simp only: h set_map ball_simps)
  qed
  then show ?thesis using JMap
    by (cases "mapE (\<lambda>kv. ebind (get (snd kv) k) (\<lambda>w. Inr (fst kv, w))) kvs") simp_all
qed simp_all

lemma abiReferenceStep_Inr_iff:
  assumes "eligible ds"
  shows "(\<exists>es. abiReferenceStep env [] ds k = Inr es) \<longleftrightarrow> wf_abis ds"
proof -
  have "is_coll ds" using assms by (rule eligible_coll)
  then have "(\<exists>es. abiReferenceStep env [] ds k = Inr es) \<longleftrightarrow>
        (\<exists>r. coll_map (\<lambda>abi. get abi ''name'') (getIn_loop ds [''mapping'', ''abis'']) = Inr r)"
    by (cases "coll_map (\<lambda>abi. get abi ''name'') (getIn_loop ds [''mapping'', ''abis''])")
       (simp_all add: abiReferenceStep_def getIn_coll)
  then show ?thesis by (simp add: coll_map_get_Inr_iff wf_abis_def)
qed

lemma abiFileInner_total: "\<exists>es. abiFileInner env i acc a j = Inr es"
  by (simp add: abiFileInner_def split: sum.splits)

lemma abiFileStep_Inr_iff:
  assumes "eligible ds"
  shows "(\<exists>es. abiFileStep env [] ds k = Inr es) \<longleftrightarrow> is_coll (getIn_loop ds [''mapping'', ''abis''])"
proof (cases "is_coll (getIn_loop ds [''mapping'', ''abis''])")
  case True
  have "\<exists>es. coll_reduce (abiFileInner env k) [] (getIn_loop ds [''mapping'', ''abis'']) = Inr es"
    using coll_reduce_Inr_iff [where step = "abiFileInner env k", OF abiFileInner_acc True]
      abiFileInner_total by blast
  then show ?thesis using True eligible_coll [OF assms] by (simp add: abiFileStep_def getIn_coll)
next
  case False
  then have "coll_reduce (abiFileInner env k) [] (getIn_loop ds [''mapping'', ''abis''])
             = Inl (TypeError (getIn_loop ds [''mapping'', ''abis'']))"
    by (cases "getIn_loop ds [''mapping'', ''abis'']") simp_all
  then show ?thesis using False eligible_coll [OF assms] by (simp add: abiFileStep_def getIn_coll)
qed

lemma addressStep_total: "eligible v \<Longrightarrow> \<exists>es. addressStep env [] v k = Inr es"
  by (simp add: addressStep_errorsOf eligible_coll)

lemma eventsStep_total: "\<exists>es. eventsStep env [] v k = Inr es"
  by (simp add: eventsStep_errorsOf)

lemma validateContractAddresses_Inr_iff:
  "(\<exists>es. validateContractAddresses env manifest = Inr es) \<longleftrightarrow> wf_sources manifest"
  using validate_Inr_iff [where step = "addressStep env" and good = "\<lambda>v. True" and manifest = manifest,
      OF addressStep_acc] addressStep_total
  by (simp add: validateContractAddresses_def list_all_iff)

lemma validateEvents_Inr_iff:
  "(\<exists>es. validateEvents env manifest = Inr es) \<longleftrightarrow> wf_sources manifest"
  using validate_Inr_iff [where step = "eventsStep env" and good = "\<lambda>v. True" and manifest = manifest,
      OF eventsStep_acc] eventsStep_total
  by (simp add: validateEvents_def list_all_iff)

lemma abiReferenceErrors_Inr_iff:
  "(\<exists>es. abiReferenceErrors env manifest = Inr es) \<longleftrightarrow>
     wf_sources manifest \<and> list_all wf_abis (eligibleSources manifest)"
  unfolding abiReferenceErrors_def
  by (rule validate_Inr_iff [where step = "abiReferenceStep env", OF abiReferenceStep_acc])
     (rule abiReferenceStep_Inr_iff)

lemma abiFileErrors_Inr_iff:
  "(\<exists>es. abiFileErrors env manifest = Inr es) \<longleftrightarrow>
     wf_sources manifest
     \<and> list_all (\<lambda>ds. is_coll (getIn_loop ds [''mapping'', ''abis''])) (eligibleSources manifest)"
  unfolding abiFileErrors_def
  by (rule validate_Inr_iff [where step = "abiFileStep env", OF abiFileStep_acc])
     (rule abiFileStep_Inr_iff)

lemma validateAbis_Inr_iff:
  "(\<exists>es. validateAbis env manifest = Inr es) \<longleftrightarrow>
     wf_sources manifest \<and> list_all wf_abis (eligibleSources manifest)"
proof -
  have "(\<exists>es. validateAbis env manifest = Inr es) \<longleftrightarrow>
        (\<exists>r. abiReferenceErrors env manifest = Inr r) \<and> (\<exists>f. abiFileErrors env manifest = Inr f)"
    by (cases "abiReferenceErrors env manifest"; cases "abiFileErrors env manifest")
       (simp_all add: validateAbis_def)
  also have "\<dots> \<longleftrightarrow> wf_sources manifest \<and> list_all wf_abis (eligibleSources manifest)"
    unfolding abiReferenceErrors_Inr_iff abiFileErrors_Inr_iff
    by (auto simp: list_all_iff wf_abis_def)
  finally show ?thesis .
qed

text \<open>
  C3, as stated, fails: an eligible data source whose mapping has no \<^verbatim>\<open>abis\<close> makes
  \<^verbatim>\<open>validateAbis\<close> throw the \<^verbatim>\<open>TypeError\<close> of \<^verbatim>\<open>undefined.map\<close>.
\<close>

theorem validateAbis_throws_counterexample:
  "validateAbis sample_env
     (manifestOf [mkDataSource ''ethereum/contract''
        [(''address'', JStr ''0x1234567890123456789012345678901234567890''), (''abi'', JStr ''Token'')]
        [(''apiVersion'', JStr ''0.0.5'')]])
   = Inl (TypeError JUndefined)"
  by code_simp

text \<open>
  C3, amended. \<^verbatim>\<open>validateContractAddresses\<close> and \<^verbatim>\<open>validateEvents\<close> return an error
  collection exactly when the manifest is a collection whose \<^verbatim>\<open>dataSources\<close> is a collection
  of collections; \<^verbatim>\<open>validateAbis\<close> returns one exactly when, in addition, the
  \<^verbatim>\<open>mapping.abis\<close> of every eligible data source is a collection of collections. On any
  other manifest the function throws.
\<close>

theorem cross_validators_return_iff:
  "((\<exists>es. validateContractAddresses env manifest = Inr es) \<longleftrightarrow> wf_sources manifest)
   \<and> ((\<exists>es. validateEvents env manifest = Inr es) \<longleftrightarrow> wf_sources manifest)
   \<and> ((\<exists>es. validateAbis env manifest = Inr es) \<longleftrightarrow>
        wf_sources manifest \<and> list_all wf_abis (eligibleSources manifest))"
  using validateContractAddresses_Inr_iff validateEvents_Inr_iff validateAbis_Inr_iff
  by blast

text \<open>
  A manifest of the required shape, its only ABI file broken and its event unknown: all
  three functions return.
\<close>

theorem cross_validators_return_iff_witness:
  "wf_sources (manifestOf [mkDataSource ''ethereum/contract'' [(''abi'', JStr ''Token'')]
        [(''abis'', JList [mkAbi ''Token'' ''broken.json'']),
         (''eventHandlers'', JList [JMap [(''event'', JStr ''Burn()'')]])]])
   \<and> (\<exists>es. validateAbis sample_env (manifestOf [mkDataSource ''ethereum/contract'' [(''abi'', JStr ''Token'')]
        [(''abis'', JList [mkAbi ''Token'' ''broken.json'']),
         (''eventHandlers'', JList [JMap [(''event'', JStr ''Burn()'')]])]]) = Inr es)
   \<and> (\<exists>es. validateEvents sample_env (manifestOf [mkDataSource ''ethereum/contract'' [(''abi'', JStr ''Token'')]
        [(''abis'', JList [mkAbi ''Token'' ''broken.json'']),
         (''eventHandlers'', JList [JMap [(''event'', JStr ''Burn()'')]])]]) = Inr es)"
  using cross_validators_return_iff [of sample_env "manifestOf [mkDataSource ''ethereum/contract'' [(''abi'', JStr ''Token'')]
        [(''abis'', JList [mkAbi ''Token'' ''broken.json'']),
         (''eventHandlers'', JList [JMap [(''event'', JStr ''Burn()'')]])]]"]
  by (simp add: wf_sources_def wf_abis_def eligibleSources_def eligible_def kindFilter_def
      manifestOf_def mkDataSource_def mkAbi_def)

section \<open>The event check\<close>


lemma eventInner_errorsOf:
  "eventInner env a i acc ev j = Inr (acc @ errorsOf (eventInner env a i) (j, ev))"
  by (simp add: eventInner_def errorsOf_def)

lemma errorsOf_eventInner:
  "errorsOf (eventInner env a i) (j, ev) =
     (if ev \<in> JStr ` set (eventSignatures a) then []
      else [\<lparr>path = [Key ''dataSources'', i, Key ''eventHandlers'', j],
             message = eventMessage ev env a\<rparr>])"
  by (simp add: eventInner_def errorsOf_def includes_str_def)

lemma reduceE_total:
  assumes "\<And>acc v k. f acc v k = Inr (acc @ errorsOf f (k, v))"
  shows "reduceE f acc kvs = Inr (acc @ concat (map (errorsOf f) kvs))"
proof (induction kvs arbitrary: acc)
  case Nil
  then show ?case by simp
next
  case (Cons kv kvs)
  then show ?case using assms [of acc "snd kv" "fst kv"] by (cases kv) simp
qed

lemma mapE_get_maps:
  assumes "list_all is_coll hs"
  shows "mapE (\<lambda>h. get h k) hs = Inr (map (\<lambda>h. getIn_loop h [k]) hs)"
proof (rule mapE_total)
  fix h assume "h \<in> set hs"
  with assms have "is_coll h" by (simp add: list_all_iff)
  then show "get h k = Inr (getIn_loop h [k])" by (cases h) (simp_all split: option.splits)
qed


lemma errorsOf_eventsStep_eq:
  "eventsTry env [] ds k = Inr es \<Longrightarrow> errorsOf (eventsStep env) (k, ds) = es"
  by (simp add: errorsOf_def eventsStep_def)



lemma in_indexed:
  "(k, x) \<in> set (indexed n xs) \<longleftrightarrow> (\<exists>i. k = Idx i \<and> n \<le> i \<and> i - n < length xs \<and> x = xs ! (i - n))"
proof (induction xs arbitrary: n)
  case Nil
  then show ?case by simp
next
  case (Cons y ys)
  show ?case
  proof
    assume "(k, x) \<in> set (indexed n (y # ys))"
    then consider "k = Idx n" "x = y" | "(k, x) \<in> set (indexed (Suc n) ys)" by auto
    then show "\<exists>i. k = Idx i \<and> n \<le> i \<and> i - n < length (y # ys) \<and> x = (y # ys) ! (i - n)"
    proof cases
      case 1
      then show ?thesis by auto
    next
      case 2
      then obtain i where i: "k = Idx i" "Suc n \<le> i" "i - Suc n < length ys" "x = ys ! (i - Suc n)"
        using Cons.IH by blast
      then have "(y # ys) ! (i - n) = ys ! (i - Suc n)"
        by (metis Suc_diff_Suc Suc_le_lessD nth_Cons_Suc)
      with i show ?thesis by (intro exI [of _ i]) auto
    qed
  next
    assume "\<exists>i. k = Idx i \<and> n \<le> i \<and> i - n < length (y # ys) \<and> x = (y # ys) ! (i - n)"
    then obtain i where i: "k = Idx i" "n \<le> i" "i - n < length (y # ys)" "x = (y # ys) ! (i - n)"
      by blast
    show "(k, x) \<in> set (indexed n (y # ys))"
    proof (cases "i = n")
      case True
      with i show ?thesis by simp
    next
      case False
      with i have "Suc n \<le> i" "i - Suc n < length ys" by auto
      moreover have "(y # ys) ! (i - n) = ys ! (i - Suc n)"
        using \<open>Suc n \<le> i\<close> by (metis Suc_diff_Suc Suc_le_lessD nth_Cons_Suc)
      ultimately have "(k, x) \<in> set (indexed (Suc n) ys)"
        using i Cons.IH [of "Suc n"] by auto
      then show ?thesis by simp
    qed
  qed
qed





section \<open>The ABI file check\<close>

lemma abiFileInner_errorsOf:
  "abiFileInner env k acc a j = Inr (acc @ errorsOf (abiFileInner env k) (j, a))"
  by (simp add: abiFileInner_def errorsOf_def split: sum.splits)

lemma errorsOf_abiFileInner:
  "errorsOf (abiFileInner env k) (j, a) =
     (case loadAbiEntry env a of
        Inr loaded \<Rightarrow> []
      | Inl e \<Rightarrow> [\<lparr>path = [Key ''dataSources'', k, Key ''mapping'', Key ''abis'', j, Key ''file''],
                   message = exn_message env e\<rparr>])"
  by (simp add: abiFileInner_def errorsOf_def split: sum.splits)

lemma errorsOf_abiFileStep:
  assumes "is_coll ds" and "is_coll (getIn_loop ds [''mapping'', ''abis''])"
  shows "errorsOf (abiFileStep env) (k, ds) =
           concat (map (errorsOf (abiFileInner env k)) (entries (getIn_loop ds [''mapping'', ''abis''])))"
proof -
  have "coll_reduce (abiFileInner env k) [] (getIn_loop ds [''mapping'', ''abis'']) =
        reduceE (abiFileInner env k) [] (entries (getIn_loop ds [''mapping'', ''abis'']))"
    using assms(2) by (cases "getIn_loop ds [''mapping'', ''abis'']") simp_all
  then show ?thesis
    using assms(1)
      reduceE_total [where f = "abiFileInner env k" and acc = "[]", OF abiFileInner_errorsOf]
    by (simp add: errorsOf_def [of "abiFileStep env"] abiFileStep_def getIn_coll)
qed

lemma coll_reduce_not_coll: "\<not> is_coll c \<Longrightarrow> coll_reduce f acc c = Inl (TypeError c)"
  by (cases c) simp_all

lemma errorsOf_abiFileStep_not_coll:
  assumes "\<not> is_coll (getIn_loop ds [''mapping'', ''abis''])"
  shows "errorsOf (abiFileStep env) (k, ds) = []"
proof (cases "getIn ds [''mapping'', ''abis'']")
  case (Inl e)
  then show ?thesis by (simp add: errorsOf_def abiFileStep_def)
next
  case (Inr abis)
  then have "abis = getIn_loop ds [''mapping'', ''abis'']" by (cases ds) simp_all
  with assms have "coll_reduce (abiFileInner env k) [] abis = Inl (TypeError abis)"
    by (simp add: coll_reduce_not_coll)
  with Inr show ?thesis by (simp add: errorsOf_def abiFileStep_def)
qed

lemma errorsOf_abiFileStep_paths:
  assumes "is_coll ds" and "err \<in> set (errorsOf (abiFileStep env) (k, ds))"
  shows "\<exists>j. path err = [Key ''dataSources'', k, Key ''mapping'', Key ''abis'', j, Key ''file'']"
proof (cases "is_coll (getIn_loop ds [''mapping'', ''abis''])")
  case True
  with assms obtain kv where "err \<in> set (errorsOf (abiFileInner env k) kv)"
    by (auto simp: errorsOf_abiFileStep)
  then show ?thesis
    using errorsOf_abiFileInner [of env k "fst kv" "snd kv"] by (auto split: sum.splits)
next
  case False
  with assms show ?thesis by (simp add: errorsOf_abiFileStep_not_coll)
qed

lemma mapE_Inr_map:
  assumes "mapE f xs = Inr ys"
  shows "ys = map (\<lambda>x. case f x of Inr y \<Rightarrow> y | Inl e \<Rightarrow> d) xs"
  using assms
proof (induction xs arbitrary: ys)
  case Nil
  then show ?case by simp
next
  case (Cons x xs)
  then show ?case by (cases "f x"; cases "mapE f xs") auto
qed

lemma validate_steps_Inr:
  assumes acc: "\<And>acc v k. step acc v k = ebind (step [] v k) (\<lambda>es. Inr (acc @ es))"
    and "get manifest ''dataSources'' = Inr (JList dss)" and "list_all is_coll dss"
    and "ebind (contractDataSources manifest) (coll_reduce step []) = Inr errs"
  shows "errs = concat (map (errorsOf step) (indexed 0 (filter eligible dss)))"
proof -
  from assms(4) obtain ess where
    m: "mapE (\<lambda>kv. step [] (snd kv) (fst kv)) (indexed 0 (filter eligible dss)) = Inr ess"
    and e: "errs = concat ess"
    unfolding validate_steps [where step = step, OF acc assms(2,3)]
    by (auto simp: ebind_eq_Inr)
  have "ess = map (errorsOf step) (indexed 0 (filter eligible dss))"
    using mapE_Inr_map [OF m, of "[]"] by (simp add: errorsOf_def [abs_def])
  with e show ?thesis by simp
qed

lemma filter_concat_indexed:
  assumes "\<And>i x. i \<noteq> m \<Longrightarrow> filter P (f (Idx i, x)) = []"
    and "n \<le> m" and "m - n < length xs"
  shows "filter P (concat (map f (indexed n xs))) = filter P (f (Idx m, xs ! (m - n)))"
  using assms(2,3)
proof (induction xs arbitrary: n)
  case Nil
  then show ?case by simp
next
  case (Cons y ys)
  have rest: "filter P (concat (map f (indexed (Suc n) ys))) = []" if "m = n"
  proof -
    have "filter P (f kv) = []" if "kv \<in> set (indexed (Suc n) ys)" for kv
    proof -
      from that obtain i where "fst kv = Idx i" "Suc n \<le> i"
        using in_indexed [of "fst kv" "snd kv" "Suc n" ys] by auto
      with \<open>m = n\<close> show ?thesis using assms(1) [of i "snd kv"] by (cases kv) auto
    qed
    then show ?thesis by (simp add: filter_concat)
  qed
  show ?case
  proof (cases "m = n")
    case True
    with rest show ?thesis by simp
  next
    case False
    with Cons.prems have "Suc n \<le> m" "m - Suc n < length ys" by auto
    moreover have "(y # ys) ! (m - n) = ys ! (m - Suc n)"
      using \<open>Suc n \<le> m\<close> by (metis Suc_diff_Suc Suc_le_lessD nth_Cons_Suc)
    ultimately show ?thesis
      using Cons.IH [of "Suc n"] assms(1) [of n y] False by simp
  qed
qed



section \<open>The event errors of one data source\<close>

lemma filter_all: "(\<And>x. x \<in> set xs \<Longrightarrow> P x) \<Longrightarrow> filter P xs = xs"
  by (induction xs) simp_all







section \<open>The order of the combined errors\<close>

lemma sorted_map_const: "\<forall>e\<in>set xs. g e = (n::nat) \<Longrightarrow> sorted (map g xs)"
  by (induction xs) simp_all

lemma sorted_concat_indexed:
  assumes "\<And>i x e. e \<in> set (f (Idx i, x)) \<Longrightarrow> g e = i"
  shows "sorted (map g (concat (map f (indexed n xs))))
       \<and> (\<forall>e\<in>set (concat (map f (indexed n xs))). n \<le> g e)"
proof (induction xs arbitrary: n)
  case Nil
  then show ?case by simp
next
  case (Cons x xs)
  have here: "\<forall>e\<in>set (f (Idx n, x)). g e = n" using assms by blast
  then have "sorted (map g (f (Idx n, x)))"
    by (rule sorted_map_const)
  moreover from Cons.IH [of "Suc n"]
  have rest: "sorted (map g (concat (map f (indexed (Suc n) xs))))"
    "\<forall>e\<in>set (concat (map f (indexed (Suc n) xs))). Suc n \<le> g e" by blast+
  ultimately have "sorted (map g (f (Idx n, x)) @ map g (concat (map f (indexed (Suc n) xs))))"
    unfolding sorted_append using here rest(2) by (simp add: Suc_leD)
  moreover have "\<forall>e\<in>set (f (Idx n, x) @ concat (map f (indexed (Suc n) xs))). n \<le> g e"
    using here rest(2) by (simp add: ball_Un Suc_leD)
  ultimately show ?case by simp
qed

lemma errorsOf_abiReferenceStep_paths:
  assumes "err \<in> set (errorsOf (abiReferenceStep env) (k, ds))"
  shows "path err = [Key ''dataSources'', k, Key ''source'', Key ''abi'']"
proof (cases "abiReferenceStep env [] ds k")
  case (Inl e)
  with assms show ?thesis by (simp add: errorsOf_def)
next
  case (Inr es)
  then have "es = [] \<or> (\<exists>msg. es = [\<lparr>path = [Key ''dataSources'', k, Key ''source'', Key ''abi''],
                                          message = msg\<rparr>])"
    unfolding abiReferenceStep_def ebind_eq_Inr by (auto split: if_splits)
  with assms Inr show ?thesis by (auto simp: errorsOf_def)
qed

lemma errorsOf_addressStep_paths:
  assumes "err \<in> set (errorsOf (addressStep env) (k, ds))"
  shows "path err = [Key ''dataSources'', k, Key ''source'', Key ''address'']"
proof (cases "addressStep env [] ds k")
  case (Inl e)
  with assms show ?thesis by (simp add: errorsOf_def)
next
  case (Inr es)
  then have "es = [] \<or> (\<exists>msg. es = [\<lparr>path = [Key ''dataSources'', k, Key ''source'', Key ''address''],
                                          message = msg\<rparr>])"
    unfolding addressStep_def ebind_eq_Inr by (auto split: if_splits)
  with assms Inr show ?thesis by (auto simp: errorsOf_def)
qed

lemma errorsOf_abiFileStep_paths_any:
  assumes "err \<in> set (errorsOf (abiFileStep env) (k, ds))"
  shows "\<exists>j. path err = [Key ''dataSources'', k, Key ''mapping'', Key ''abis'', j, Key ''file'']"
proof (cases "is_coll ds")
  case True
  then show ?thesis using assms by (rule errorsOf_abiFileStep_paths)
next
  case False
  then have "abiFileStep env [] ds k = Inl (TypeError ds)"
    by (cases ds) (simp_all add: abiFileStep_def)
  with assms show ?thesis by (simp add: errorsOf_def)
qed

lemma reduceE_eventInner_full_paths:
  assumes "reduceE (eventInner env a k) [] kvs = Inr es" and "err \<in> set es"
  shows "\<exists>j. path err = [Key ''dataSources'', k, Key ''eventHandlers'', j]"
proof -
  have "es = concat (map (errorsOf (eventInner env a k)) kvs)"
    using assms(1)
      reduceE_total [where f = "eventInner env a k" and acc = "[]" and kvs = kvs, OF eventInner_errorsOf]
    by simp
  with assms(2) obtain kv where "kv \<in> set kvs" "err \<in> set (errorsOf (eventInner env a k) kv)"
    by auto
  then show ?thesis
    using errorsOf_eventInner [of env a k "fst kv" "snd kv"] by (auto split: if_splits)
qed

lemma errorsOf_eventsStep_full_paths:
  assumes "err \<in> set (errorsOf (eventsStep env) (k, ds))"
  shows "\<exists>j. path err = [Key ''dataSources'', k, Key ''eventHandlers'', j]"
proof (cases "eventsTry env [] ds k")
  case (Inl e)
  with assms show ?thesis by (simp add: errorsOf_def eventsStep_def)
next
  case (Inr es)
  with assms have in_es: "err \<in> set es" by (simp add: errorsOf_eventsStep_eq)
  from Inr obtain a c where c: "coll_reduce (eventInner env a k) [] c = Inr es"
    by (auto simp: eventsTry_def ebind_eq_Inr)
  then have "is_coll c" using coll_reduce_not_coll [of c "eventInner env a k" "[]"] by auto
  with c have "reduceE (eventInner env a k) [] (entries c) = Inr es" by (cases c) simp_all
  then show ?thesis using in_es by (rule reduceE_eventInner_full_paths)
qed

lemma ds_idx_path [simp]: "path e = k # Idx i # rest \<Longrightarrow> ds_idx e = i"
  by simp


lemma check_result_shape:
  assumes "\<forall>k ds e. e \<in> set (f (k, ds)) \<longrightarrow> (\<exists>rest. path e = Key ''dataSources'' # k # rest \<and> Q rest)"
  shows "sorted (map ds_idx (concat (map f (indexed 0 xs))))" (is ?sorted)
    and "\<forall>e\<in>set (concat (map f (indexed 0 xs))).
           \<exists>rest. path e = Key ''dataSources'' # Idx (ds_idx e) # rest \<and> Q rest" (is ?shape)
proof -
  have idx: "ds_idx e = i" if "e \<in> set (f (Idx i, x))" for i x e
    using assms that by fastforce
  show ?sorted
    using sorted_concat_indexed [where f = f and g = ds_idx and n = 0 and xs = xs, OF idx] by simp
  show ?shape
  proof
    fix e assume "e \<in> set (concat (map f (indexed 0 xs)))"
    then obtain kv where kv: "kv \<in> set (indexed 0 xs)" "e \<in> set (f kv)" by auto
    then obtain i where "fst kv = Idx i"
      using in_indexed [of "fst kv" "snd kv" 0 xs] by auto
    with kv(2) have "e \<in> set (f (Idx i, snd kv))" by (cases kv) simp
    then show "\<exists>rest. path e = Key ''dataSources'' # Idx (ds_idx e) # rest \<and> Q rest"
      using assms idx [of e i "snd kv"] by blast
  qed
qed

text \<open>
  C2, as stated, fails: with two data sources, each with an unknown ABI name and a malformed
  address, the reference error of data source 1 comes before the address error of data
  source 0.
\<close>

theorem load_errors_order_counterexample:
  "(case load_errors sample_env twoSources of Inr errs \<Rightarrow> map path errs | Inl e \<Rightarrow> []) =
     [[Key ''dataSources'', Idx 0, Key ''source'', Key ''abi''],
      [Key ''dataSources'', Idx 1, Key ''source'', Key ''abi''],
      [Key ''dataSources'', Idx 0, Key ''source'', Key ''address''],
      [Key ''dataSources'', Idx 1, Key ''source'', Key ''address'']]"
  by code_simp

text \<open>
  C2, amended. When the combined validation of a manifest with a list of data sources
  returns, its result is the errors of the ABI reference check, then those of the ABI file
  check, then those of the address check, then those of the event check: each check
  contributes all its own errors, whatever the others found. The errors are thus ordered by
  check first; within one check they are ordered by the data-source index of their paths.
\<close>

theorem load_errors_order:
  assumes "get manifest ''dataSources'' = Inr (JList dss)" and "load_errors env manifest = Inr errs"
  shows "\<exists>refs files addrs evs.
           abiReferenceErrors env manifest = Inr refs \<and> abiFileErrors env manifest = Inr files
         \<and> validateContractAddresses env manifest = Inr addrs
         \<and> validateEvents env manifest = Inr evs
         \<and> errs = refs @ files @ addrs @ evs
         \<and> (\<forall>e\<in>set refs.
              path e = [Key ''dataSources'', Idx (ds_idx e), Key ''source'', Key ''abi''])
         \<and> (\<forall>e\<in>set files. \<exists>j.
              path e = [Key ''dataSources'', Idx (ds_idx e), Key ''mapping'', Key ''abis'', j,
                        Key ''file''])
         \<and> (\<forall>e\<in>set addrs.
              path e = [Key ''dataSources'', Idx (ds_idx e), Key ''source'', Key ''address''])
         \<and> (\<forall>e\<in>set evs. \<exists>j.
              path e = [Key ''dataSources'', Idx (ds_idx e), Key ''eventHandlers'', j])
         \<and> sorted (map ds_idx refs) \<and> sorted (map ds_idx files)
         \<and> sorted (map ds_idx addrs) \<and> sorted (map ds_idx evs)"
proof -
  let ?fl = "indexed 0 (filter eligible dss)"
  from assms(2) obtain abiErrs addrs evs where
    va: "validateAbis env manifest = Inr abiErrs"
    and ad: "validateContractAddresses env manifest = Inr addrs"
    and ev: "validateEvents env manifest = Inr evs"
    and errs: "errs = abiErrs @ addrs @ evs"
    by (auto simp: load_errors_def ebind_eq_Inr)
  from va obtain refs files where
    rf: "abiReferenceErrors env manifest = Inr refs"
    and fi: "abiFileErrors env manifest = Inr files"
    and abiErrs: "abiErrs = refs @ files"
    by (auto simp: validateAbis_def ebind_eq_Inr)
  have "wf_sources manifest" using ad validateContractAddresses_Inr_iff by blast
  with assms(1) have colls: "list_all is_coll dss" by (simp add: wf_sources_def)
  have refs: "refs = concat (map (errorsOf (abiReferenceStep env)) ?fl)"
    using rf unfolding abiReferenceErrors_def
    by (rule validate_steps_Inr [where step = "abiReferenceStep env", OF abiReferenceStep_acc assms(1) colls])
  have files: "files = concat (map (errorsOf (abiFileStep env)) ?fl)"
    using fi unfolding abiFileErrors_def
    by (rule validate_steps_Inr [where step = "abiFileStep env", OF abiFileStep_acc assms(1) colls])
  have addrs: "addrs = concat (map (errorsOf (addressStep env)) ?fl)"
    using ad validateContractAddresses_concat [OF assms(1) colls, of env] by simp
  have evs: "evs = concat (map (errorsOf (eventsStep env)) ?fl)"
    using ev validateEvents_concat [OF assms(1) colls, of env] by simp
  have r: "\<forall>k ds e. e \<in> set (errorsOf (abiReferenceStep env) (k, ds)) \<longrightarrow>
      (\<exists>rest. path e = Key ''dataSources'' # k # rest \<and> rest = [Key ''source'', Key ''abi''])"
    using errorsOf_abiReferenceStep_paths by simp
  have f: "\<forall>k ds e. e \<in> set (errorsOf (abiFileStep env) (k, ds)) \<longrightarrow>
      (\<exists>rest. path e = Key ''dataSources'' # k # rest
             \<and> (\<exists>j. rest = [Key ''mapping'', Key ''abis'', j, Key ''file'']))"
    using errorsOf_abiFileStep_paths_any by fastforce
  have a: "\<forall>k ds e. e \<in> set (errorsOf (addressStep env) (k, ds)) \<longrightarrow>
      (\<exists>rest. path e = Key ''dataSources'' # k # rest \<and> rest = [Key ''source'', Key ''address''])"
    using errorsOf_addressStep_paths by simp
  have v: "\<forall>k ds e. e \<in> set (errorsOf (eventsStep env) (k, ds)) \<longrightarrow>
      (\<exists>rest. path e = Key ''dataSources'' # k # rest \<and> (\<exists>j. rest = [Key ''eventHandlers'', j]))"
    using errorsOf_eventsStep_full_paths by fastforce
  have "\<forall>e\<in>set refs. path e = [Key ''dataSources'', Idx (ds_idx e), Key ''source'', Key ''abi'']"
    unfolding refs
    using check_result_shape(2) [where f = "errorsOf (abiReferenceStep env)"
        and Q = "\<lambda>rest. rest = [Key ''source'', Key ''abi'']", OF r] by blast
  moreover have "\<forall>e\<in>set files. \<exists>j.
              path e = [Key ''dataSources'', Idx (ds_idx e), Key ''mapping'', Key ''abis'', j,
                        Key ''file'']"
    unfolding files
    using check_result_shape(2) [where f = "errorsOf (abiFileStep env)"
        and Q = "\<lambda>rest. \<exists>j. rest = [Key ''mapping'', Key ''abis'', j, Key ''file'']", OF f]
    by blast
  moreover have "\<forall>e\<in>set addrs.
              path e = [Key ''dataSources'', Idx (ds_idx e), Key ''source'', Key ''address'']"
    unfolding addrs
    using check_result_shape(2) [where f = "errorsOf (addressStep env)"
        and Q = "\<lambda>rest. rest = [Key ''source'', Key ''address'']", OF a] by blast
  moreover have "\<forall>e\<in>set evs. \<exists>j.
              path e = [Key ''dataSources'', Idx (ds_idx e), Key ''eventHandlers'', j]"
    unfolding evs
    using check_result_shape(2) [where f = "errorsOf (eventsStep env)"
        and Q = "\<lambda>rest. \<exists>j. rest = [Key ''eventHandlers'', j]", OF v] by blast
  moreover have "sorted (map ds_idx refs)"
    unfolding refs
    by (rule check_result_shape(1) [where f = "errorsOf (abiReferenceStep env)"
        and Q = "\<lambda>rest. rest = [Key ''source'', Key ''abi'']", OF r])
  moreover have "sorted (map ds_idx files)"
    unfolding files
    by (rule check_result_shape(1) [where f = "errorsOf (abiFileStep env)"
        and Q = "\<lambda>rest. \<exists>j. rest = [Key ''mapping'', Key ''abis'', j, Key ''file'']", OF f])
  moreover have "sorted (map ds_idx addrs)"
    unfolding addrs
    by (rule check_result_shape(1) [where f = "errorsOf (addressStep env)"
        and Q = "\<lambda>rest. rest = [Key ''source'', Key ''address'']", OF a])
  moreover have "sorted (map ds_idx evs)"
    unfolding evs
    by (rule check_result_shape(1) [where f = "errorsOf (eventsStep env)"
        and Q = "\<lambda>rest. \<exists>j. rest = [Key ''eventHandlers'', j]", OF v])
  ultimately show ?thesis
    using rf fi ad ev errs abiErrs by (intro exI [of _ refs] exI [of _ files] exI [of _ addrs] exI [of _ evs]) simp
qed


text \<open>
  The two data sources of the counterexample: two reference errors, then two address
  errors; the ABI file check and the event check find nothing.
\<close>

theorem load_errors_order_witness:
  "load_errors sample_env twoSources =
     Inr [\<lparr>path = [Key ''dataSources'', Idx 0, Key ''source'', Key ''abi''],
           message = ''ABI name 'Missing' not found in mapping > abis.\<newline>  Available ABIs:\<newline>  - Token''\<rparr>,
          \<lparr>path = [Key ''dataSources'', Idx 1, Key ''source'', Key ''abi''],
           message = ''ABI name 'Absent' not found in mapping > abis.\<newline>  Available ABIs:\<newline>  - Token''\<rparr>,
          \<lparr>path = [Key ''dataSources'', Idx 0, Key ''source'', Key ''address''],
           message = ''Contract address is invalid: 0x12\<newline>  Must be 40 hexadecimal characters, with an optional '0x' prefix.''\<rparr>,
          \<lparr>path = [Key ''dataSources'', Idx 1, Key ''source'', Key ''address''],
           message = ''Contract address is invalid: 0x34\<newline>  Must be 40 hexadecimal characters, with an optional '0x' prefix.''\<rparr>]
   \<and> abiFileErrors sample_env twoSources = Inr []
   \<and> validateEvents sample_env twoSources = Inr []"
proof -
  have dss: "get twoSources ''dataSources'' = Inr (JList
     [mkDataSource ''ethereum/contract'' [(''address'', JStr ''0x12''), (''abi'', JStr ''Missing'')]
        [(''abis'', JList [mkAbi ''Token'' ''Token.json''])],
      mkDataSource ''ethereum/contract'' [(''address'', JStr ''0x34''), (''abi'', JStr ''Absent'')]
        [(''abis'', JList [mkAbi ''Token'' ''Token.json''])]])"
    by (simp add: twoSources_def manifestOf_def)
  have le: "load_errors sample_env twoSources =
     Inr [\<lparr>path = [Key ''dataSources'', Idx 0, Key ''source'', Key ''abi''],
           message = ''ABI name 'Missing' not found in mapping > abis.\<newline>  Available ABIs:\<newline>  - Token''\<rparr>,
          \<lparr>path = [Key ''dataSources'', Idx 1, Key ''source'', Key ''abi''],
           message = ''ABI name 'Absent' not found in mapping > abis.\<newline>  Available ABIs:\<newline>  - Token''\<rparr>,
          \<lparr>path = [Key ''dataSources'', Idx 0, Key ''source'', Key ''address''],
           message = ''Contract address is invalid: 0x12\<newline>  Must be 40 hexadecimal characters, with an optional '0x' prefix.''\<rparr>,
          \<lparr>path = [Key ''dataSources'', Idx 1, Key ''source'', Key ''address''],
           message = ''Contract address is invalid: 0x34\<newline>  Must be 40 hexadecimal characters, with an optional '0x' prefix.''\<rparr>]"
    by code_simp
  have fi: "abiFileErrors sample_env twoSources = Inr []"
    by code_simp
  have ev: "validateEvents sample_env twoSources = Inr []"
    by code_simp
  from load_errors_order [OF dss le] le fi ev show ?thesis by simp
qed

section \<open>Which data sources are checked\<close>








section \<open>The ABI reference check\<close>

lemma defaultComparator_strings:
  "defaultComparator env (JStr x) (JStr y) \<le> 0 \<longleftrightarrow> x \<le> y"
  by (auto simp: defaultComparator_def js_gt_def)

lemma js_insort_strings: "js_insort env (JStr x) (map JStr ys) = map JStr (insort x ys)"
  by (induction ys) (simp_all add: defaultComparator_strings)

lemma js_sort_strings: "js_sort env (map JStr xs) = map JStr (sort xs)"
  by (induction xs) (simp_all add: js_sort_def js_insort_strings)

lemma abiReference_of_source:
  assumes "is_coll ds" and "getIn_loop ds [''mapping'', ''abis''] = JList abis"
    and "list_all is_coll abis" and "map (\<lambda>abi. getIn_loop abi [''name'']) abis = map JStr names"
  shows "errorsOf (abiReferenceStep env) (k, ds) =
     (if getIn_loop ds [''source'', ''abi''] \<in> JStr ` set names then []
      else [\<lparr>path = [Key ''dataSources'', k, Key ''source'', Key ''abi''],
             message =
               ''ABI name '' @ sq @ toStr env (getIn_loop ds [''source'', ''abi'']) @ sq
               @ '' not found in mapping > abis.'' @ ''\<newline>  Available ABIs:\<newline>  ''
               @ join ''\<newline>  '' (map (\<lambda>n. ''- '' @ n) (sort names))\<rparr>])"
proof -
  have "coll_map (\<lambda>abi. get abi ''name'') (JList abis) = Inr (JList (map JStr names))"
    using assms(3,4) by (simp add: mapE_get_maps)
  moreover have "map (\<lambda>n. ''- '' @ toStr env n) (map JStr (sort names)) = map (\<lambda>n. ''- '' @ n) (sort names)"
    by simp
  ultimately show ?thesis
    using assms(1,2)
    by (simp add: errorsOf_def abiReferenceStep_def getIn_coll abiReferenceMessage_def
        js_sort_strings del: map_map)
qed

lemma abiReference_at_position:
  assumes "get manifest ''dataSources'' = Inr (JList dss)" and "list_all is_coll dss"
    and "m < length (filter eligible dss)" and "abiReferenceErrors env manifest = Inr refs"
  shows "filter (\<lambda>err. path err = [Key ''dataSources'', Idx m, Key ''source'', Key ''abi'']) refs
         = errorsOf (abiReferenceStep env) (Idx m, filter eligible dss ! m)"
proof -
  let ?P = "\<lambda>err. path err = [Key ''dataSources'', Idx m, Key ''source'', Key ''abi'']"
  let ?fl = "filter eligible dss"
  have refs: "refs = concat (map (errorsOf (abiReferenceStep env)) (indexed 0 ?fl))"
    using assms(4) unfolding abiReferenceErrors_def
    by (rule validate_steps_Inr [where step = "abiReferenceStep env", OF abiReferenceStep_acc assms(1,2)])
  have other: "filter ?P (errorsOf (abiReferenceStep env) (Idx i, x)) = []" if "i \<noteq> m" for i x
    using that errorsOf_abiReferenceStep_paths [of _ env "Idx i" x] by (auto simp: filter_empty_conv)
  have "filter ?P refs = filter ?P (errorsOf (abiReferenceStep env) (Idx m, ?fl ! (m - 0)))"
    unfolding refs
    by (rule filter_concat_indexed [where f = "errorsOf (abiReferenceStep env)", OF other])
       (use assms(3) in simp_all)
  also have "\<dots> = errorsOf (abiReferenceStep env) (Idx m, ?fl ! m)"
    using errorsOf_abiReferenceStep_paths [of _ env "Idx m" "?fl ! m"] by (simp add: filter_all)
  finally show ?thesis .
qed

text \<open>
  C4 fails on the code. The data source that names an ABI outside its \<^verbatim>\<open>mapping.abis\<close> is
  entry 1 of \<^verbatim>\<open>dataSources\<close>; the one error of the ABI reference check lists the declared
  names in sorted order, but its path is \<^verbatim>\<open>dataSources/0/source/abi\<close>: the index counts the
  data sources that the filter kept, not the entries of the manifest. So it is after a
  \<^verbatim>\<open>near\<close> data source, and so it is after one of kind \<^verbatim>\<open>ethereum\<close>.
\<close>

theorem abi_reference_path_index:
  "validateAbis sample_env (manifestOf
     [mkDataSource ''near'' [(''account'', JStr ''app.near'')] [],
      mkDataSource ''ethereum/contract''
        [(''address'', JStr ''1234567890123456789012345678901234567890''), (''abi'', JStr ''Missing'')]
        [(''abis'', JList [mkAbi ''Token'' ''Token.json'', mkAbi ''Bank'' ''Bank.json''])]])
   = Inr [\<lparr>path = [Key ''dataSources'', Idx 0, Key ''source'', Key ''abi''],
            message = ''ABI name 'Missing' not found in mapping > abis.\<newline>  Available ABIs:\<newline>  - Bank\<newline>  - Token''\<rparr>]
   \<and> validateAbis sample_env (manifestOf
     [mkDataSource ''ethereum''
        [(''address'', JStr ''1234567890123456789012345678901234567890''), (''abi'', JStr ''Token'')]
        [(''abis'', JList [mkAbi ''Token'' ''Token.json''])],
      mkDataSource ''ethereum/contract''
        [(''address'', JStr ''1234567890123456789012345678901234567890''), (''abi'', JStr ''Missing'')]
        [(''abis'', JList [mkAbi ''Token'' ''Token.json'', mkAbi ''Bank'' ''Bank.json''])]])
   = Inr [\<lparr>path = [Key ''dataSources'', Idx 0, Key ''source'', Key ''abi''],
            message = ''ABI name 'Missing' not found in mapping > abis.\<newline>  Available ABIs:\<newline>  - Bank\<newline>  - Token''\<rparr>]"
  by code_simp

text \<open>
  C7 fails on the code, by the same index. The ABI whose file does not parse is declared by
  entry 1 of \<^verbatim>\<open>dataSources\<close>; the loader's exception is caught and its message kept as it
  is, but the path of the error is \<^verbatim>\<open>dataSources/0/mapping/abis/0/file\<close>.
\<close>

theorem abi_file_path_index:
  "validateAbis sample_env (manifestOf
     [mkDataSource ''near'' [(''account'', JStr ''app.near'')] [],
      mkDataSource ''ethereum/contract''
        [(''address'', JStr ''1234567890123456789012345678901234567890''), (''abi'', JStr ''Token'')]
        [(''abis'', JList [mkAbi ''Token'' ''broken.json''])]])
   = Inr [\<lparr>path = [Key ''dataSources'', Idx 0, Key ''mapping'', Key ''abis'', Idx 0, Key ''file''],
            message = ''Unexpected token } in JSON''\<rparr>]
   \<and> validateAbis sample_env (manifestOf
     [mkDataSource ''ethereum''
        [(''address'', JStr ''1234567890123456789012345678901234567890''), (''abi'', JStr ''Token'')]
        [(''abis'', JList [mkAbi ''Token'' ''Token.json''])],
      mkDataSource ''ethereum/contract''
        [(''address'', JStr ''1234567890123456789012345678901234567890''), (''abi'', JStr ''Token'')]
        [(''abis'', JList [mkAbi ''Token'' ''broken.json''])]])
   = Inr [\<lparr>path = [Key ''dataSources'', Idx 0, Key ''mapping'', Key ''abis'', Idx 0, Key ''file''],
            message = ''Unexpected token } in JSON''\<rparr>]"
  by code_simp

end
